theory Spec2Isabelle
  imports Complex_Main "HOL-Library.Word"
begin

section \<open>Strings of UTF-16 code units\<close>

text \<open>
  A JavaScript string is a finite sequence of 16-bit code units. The literals of
  \<^verbatim>\<open>index.ts\<close> are all ASCII, so they are written as HOL strings and
  embedded unit by unit.
\<close>

type_synonym code_unit = "16 word"
type_synonym js_string = "code_unit list"

definition cu :: "char \<Rightarrow> code_unit" where
  "cu c = of_nat (of_char c)"

definition lit :: "string \<Rightarrow> js_string" where
  "lit cs = map cu cs"

section \<open>The regular expression engine, for the fragment the pattern uses\<close>

text \<open>
  The pattern of \<^verbatim>\<open>validateUUID7\<close> is built from the assertions \<^verbatim>\<open>^\<close> and
  \<^verbatim>\<open>$\<close>, literal characters, character classes given by ranges, and the
  quantifier \<^verbatim>\<open>{n}\<close> on a single atom. Flags: \<^verbatim>\<open>i\<close> only (no \<^verbatim>\<open>g\<close>,
  \<^verbatim>\<open>y\<close>, \<^verbatim>\<open>m\<close> or \<^verbatim>\<open>u\<close>), so \<^verbatim>\<open>test\<close> keeps no state between calls,
  \<^verbatim>\<open>^\<close> and \<^verbatim>\<open>$\<close> match at the two ends of the input only, and case folding
  is the one of ECMAScript's \<^verbatim>\<open>Canonicalize\<close> without Unicode mode.
\<close>

datatype atom = Lit code_unit | Class "(code_unit \<times> code_unit) list"

datatype node = Bol | Eol | One atom | Times atom nat

record regex =
  nodes :: "node list"
  ignoreCase :: bool

text \<open>Unicode upper-casing of an ASCII code unit: \<^verbatim>\<open>a\<close>..\<^verbatim>\<open>z\<close> go to \<^verbatim>\<open>A\<close>..\<^verbatim>\<open>Z\<close>.\<close>

definition ascii_upper :: "code_unit \<Rightarrow> code_unit" where
  "ascii_upper c = (if 0x61 \<le> c \<and> c \<le> 0x7A then c - 0x20 else c)"

text \<open>
  \<^verbatim>\<open>Canonicalize\<close> (ECMAScript, no Unicode flag): without \<^verbatim>\<open>i\<close> the unit itself;
  with it, the upper-cased unit when that is a single code unit, except that a unit
  of value 128 or more is never folded to one below 128. The upper-casing of the
  units from 128 on is the Unicode table, which is not part of the repository: it is
  the parameter \<open>uc\<close>, and nothing is assumed about it.
\<close>

definition Canonicalize :: "(code_unit \<Rightarrow> code_unit list) \<Rightarrow> bool \<Rightarrow> code_unit \<Rightarrow> code_unit" where
  "Canonicalize uc ic ch =
     (if \<not> ic then ch
      else if ch < 128 then ascii_upper ch
      else (case uc ch of
              [u] \<Rightarrow> if u < 128 then ch else u
            | _ \<Rightarrow> ch))"

definition units :: "code_unit \<Rightarrow> code_unit \<Rightarrow> code_unit list" where
  "units lo hi = map of_nat [unat lo ..< Suc (unat hi)]"

text \<open>
  A character matches an atom when some member of the atom's character set has the
  same canonical form.
\<close>

fun atom_match :: "(code_unit \<Rightarrow> code_unit list) \<Rightarrow> bool \<Rightarrow> atom \<Rightarrow> code_unit \<Rightarrow> bool" where
  "atom_match uc ic (Lit a) ch = (Canonicalize uc ic a = Canonicalize uc ic ch)"
| "atom_match uc ic (Class rs) ch =
     list_ex (\<lambda>(lo, hi). list_ex (\<lambda>a. Canonicalize uc ic a = Canonicalize uc ic ch) (units lo hi)) rs"

text \<open>\<^verbatim>\<open>X{n}\<close>: exactly \<open>n\<close> characters matching \<open>X\<close>; the rest of the input is returned.\<close>

fun times_match :: "(code_unit \<Rightarrow> code_unit list) \<Rightarrow> bool \<Rightarrow> atom \<Rightarrow> nat \<Rightarrow> js_string \<Rightarrow> js_string option" where
  "times_match uc ic a 0 s = Some s"
| "times_match uc ic a (Suc n) [] = None"
| "times_match uc ic a (Suc n) (ch # s) =
     (if atom_match uc ic a ch then times_match uc ic a n s else None)"

text \<open>
  Matching the sequence of nodes at one position: \<open>at_start\<close> says whether the
  position is the beginning of the input, \<open>s\<close> is the input from the position on.
\<close>

fun match_here :: "(code_unit \<Rightarrow> code_unit list) \<Rightarrow> bool \<Rightarrow> node list \<Rightarrow> bool \<Rightarrow> js_string \<Rightarrow> bool" where
  "match_here uc ic [] at_start s = True"
| "match_here uc ic (Bol # ns) at_start s = (at_start \<and> match_here uc ic ns at_start s)"
| "match_here uc ic (Eol # ns) at_start s = (s = [] \<and> match_here uc ic ns at_start s)"
| "match_here uc ic (One a # ns) at_start s =
     (case s of [] \<Rightarrow> False | ch # s' \<Rightarrow> atom_match uc ic a ch \<and> match_here uc ic ns False s')"
| "match_here uc ic (Times a n # ns) at_start s =
     (case times_match uc ic a n s of
        None \<Rightarrow> False
      | Some s' \<Rightarrow> match_here uc ic ns (at_start \<and> n = 0) s')"

text \<open>
  \<^verbatim>\<open>RegExp.prototype.test\<close> for a regex that is neither global nor sticky: the
  search starts at index 0 and tries every start position up to the length.
\<close>

definition test :: "(code_unit \<Rightarrow> code_unit list) \<Rightarrow> regex \<Rightarrow> js_string \<Rightarrow> bool" where
  "test uc r s =
     list_ex (\<lambda>i. match_here uc (ignoreCase r) (nodes r) (i = 0) (drop i s)) [0 ..< Suc (length s)]"

section \<open>The identifier utility\<close>

text \<open>
  \<^verbatim>\<open>/^[0-9a-f]{8}-[0-9a-f]{4}-7[0-9a-f]{3}-[89ab][0-9a-f]{3}-[0-9a-f]{12}$/i\<close>
\<close>

definition hex_class :: atom where
  "hex_class = Class [(cu CHR ''0'', cu CHR ''9''), (cu CHR ''a'', cu CHR ''f'')]"

definition variant_class :: atom where
  "variant_class = Class [(cu CHR ''8'', cu CHR ''8''), (cu CHR ''9'', cu CHR ''9''),
                          (cu CHR ''a'', cu CHR ''a''), (cu CHR ''b'', cu CHR ''b'')]"

definition validateUUID7 :: regex where
  "validateUUID7 =
     \<lparr> nodes =
         [Bol,
          Times hex_class 8, One (Lit (cu CHR ''-'')),
          Times hex_class 4, One (Lit (cu CHR ''-'')),
          One (Lit (cu CHR ''7'')), Times hex_class 3, One (Lit (cu CHR ''-'')),
          One variant_class, Times hex_class 3, One (Lit (cu CHR ''-'')),
          Times hex_class 12,
          Eol],
       ignoreCase = True \<rparr>"

text \<open>
  \<^verbatim>\<open>isValid(value)\<close> returns \<^verbatim>\<open>validateUUID7.test(value)\<close>. Its result is a
  boolean; there is no error result because \<^verbatim>\<open>test\<close> on a string does not throw.
\<close>

definition isValid :: "(code_unit \<Rightarrow> code_unit list) \<Rightarrow> js_string \<Rightarrow> bool" where
  "isValid uc v = test uc validateUUID7 v"

subsection \<open>Errors\<close>

text \<open>
  Every \<^verbatim>\<open>throw\<close> of \<^verbatim>\<open>index.ts\<close> raises a plain \<^verbatim>\<open>Error\<close> carrying a message.
  \<^verbatim>\<open>RangeError\<close> is what the platform's array constructor raises for a length it does
  not support; its message is left to the engine.
\<close>

datatype js_error = Error js_string | RangeError

subsection \<open>\<^verbatim>\<open>fromString\<close> and \<^verbatim>\<open>tryFromString\<close>\<close>

definition fromString :: "(code_unit \<Rightarrow> code_unit list) \<Rightarrow> js_string \<Rightarrow> js_error + js_string" where
  "fromString uc v =
     (if \<not> test uc validateUUID7 v then Inl (Error (lit ''Invalid UUIDv7 format: '' @ v))
      else Inr v)"

text \<open>\<^verbatim>\<open>null\<close> is \<open>None\<close>.\<close>

definition tryFromString :: "(code_unit \<Rightarrow> code_unit list) \<Rightarrow> js_string \<Rightarrow> js_string option" where
  "tryFromString uc v = (if isValid uc v then Some v else None)"

subsection \<open>\<^verbatim>\<open>create\<close>\<close>

text \<open>
  The generator of the \<^verbatim>\<open>uuidv7\<close> package is an external collaborator with a state of
  its own. One call of \<^verbatim>\<open>generator.generateOrAbort()?.toString()\<close> is a step on that
  state which yields a string, or \<open>None\<close> when the generator aborts
  (\<^verbatim>\<open>undefined\<close>). \<^verbatim>\<open>?? ""\<close> replaces the absent value by the empty string, and
  \<^verbatim>\<open>!value\<close> holds exactly for the empty string.
\<close>

type_synonym 'g generator = "'g \<Rightarrow> js_string option \<times> 'g"

definition create ::
  "(code_unit \<Rightarrow> code_unit list) \<Rightarrow> 'g generator \<Rightarrow> 'g \<Rightarrow> (js_error + js_string) \<times> 'g" where
  "create uc gen g =
     (let (r, g') = gen g;
          v = (case r of None \<Rightarrow> [] | Some str \<Rightarrow> str)
      in if v = [] \<or> \<not> test uc validateUUID7 v
         then (Inl (Error (lit ''Invalid UUIDv7 format: '' @ v)), g')
         else (Inr v, g'))"

subsection \<open>\<^verbatim>\<open>createMany\<close>\<close>

text \<open>
  A JavaScript number is an IEEE double: not-a-number, an infinity, or a finite value,
  which is a rational. The two zeros are not told apart: \<^verbatim>\<open>-0 < 0\<close> is false,
  \<^verbatim>\<open>Number.isInteger(-0)\<close> is true and a length of \<^verbatim>\<open>-0\<close> is the length 0.
\<close>

datatype number = NaN | PosInfinity | NegInfinity | Finite rat

text \<open>\<^verbatim>\<open>count < 0\<close>\<close>

fun less_zero :: "number \<Rightarrow> bool" where
  "less_zero NaN = False"
| "less_zero PosInfinity = False"
| "less_zero NegInfinity = True"
| "less_zero (Finite q) = (q < 0)"

text \<open>\<^verbatim>\<open>Number.isInteger(count)\<close>\<close>

fun isInteger :: "number \<Rightarrow> bool" where
  "isInteger (Finite q) = (of_int \<lfloor>q\<rfloor> = q)"
| "isInteger _ = False"

text \<open>
  \<^verbatim>\<open>ToLength\<close>, which reads the \<^verbatim>\<open>length\<close> property of the array-like object:
  truncated, not below 0 and not above \<open>2^53 - 1\<close>.
\<close>

fun ToLength :: "number \<Rightarrow> nat" where
  "ToLength NaN = 0"
| "ToLength PosInfinity = 2 ^ 53 - 1"
| "ToLength NegInfinity = 0"
| "ToLength (Finite q) = min (nat \<lfloor>q\<rfloor>) (2 ^ 53 - 1)"

text \<open>
  \<^verbatim>\<open>Array.from(arrayLike, mapfn)\<close> on an object that has a \<^verbatim>\<open>length\<close> only: the
  array is created with that length, which raises \<^verbatim>\<open>RangeError\<close> above \<open>2^32 - 1\<close>;
  then \<^verbatim>\<open>mapfn\<close> is called for the indices \<open>0, 1, \<dots>\<close> in order, and an exception of
  a call ends the whole operation. The function passed by \<^verbatim>\<open>createMany\<close> ignores its
  arguments, so \<open>mapfn\<close> is a step on the state.
\<close>

fun from_loop :: "('g \<Rightarrow> (js_error + 'a) \<times> 'g) \<Rightarrow> nat \<Rightarrow> 'g \<Rightarrow> (js_error + 'a list) \<times> 'g" where
  "from_loop mapfn 0 g = (Inr [], g)"
| "from_loop mapfn (Suc k) g =
     (case mapfn g of
        (Inl e, g') \<Rightarrow> (Inl e, g')
      | (Inr x, g') \<Rightarrow>
          (case from_loop mapfn k g' of
             (Inl e, g'') \<Rightarrow> (Inl e, g'')
           | (Inr xs, g'') \<Rightarrow> (Inr (x # xs), g'')))"

definition Array_from :: "number \<Rightarrow> ('g \<Rightarrow> (js_error + 'a) \<times> 'g) \<Rightarrow> 'g \<Rightarrow> (js_error + 'a list) \<times> 'g" where
  "Array_from len mapfn g =
     (if ToLength len > 2 ^ 32 - 1 then (Inl RangeError, g)
      else from_loop mapfn (ToLength len) g)"

text \<open>
  The template literal \<^verbatim>\<open>${count}\<close> is the platform's conversion of a number to a
  string, the parameter \<open>ToString\<close>.
\<close>

definition createMany ::
  "(code_unit \<Rightarrow> code_unit list) \<Rightarrow> (number \<Rightarrow> js_string) \<Rightarrow> 'g generator \<Rightarrow> 'g \<Rightarrow> number
     \<Rightarrow> (js_error + js_string list) \<times> 'g" where
  "createMany uc ToString gen g count =
     (if less_zero count \<or> \<not> isInteger count
      then (Inl (Error (lit ''Count must be a non-negative integer: '' @ ToString count)), g)
      else Array_from count (create uc gen) g)"

subsection \<open>\<^verbatim>\<open>compare\<close>\<close>

text \<open>
  \<^verbatim>\<open>a < b\<close> on two strings compares them code unit by code unit; a proper prefix is
  smaller. \<^verbatim>\<open>a > b\<close> is the same test with the operands exchanged.
\<close>

fun string_less :: "js_string \<Rightarrow> js_string \<Rightarrow> bool" where
  "string_less [] [] = False"
| "string_less [] (y # ys) = True"
| "string_less (x # xs) [] = False"
| "string_less (x # xs) (y # ys) = (x < y \<or> (x = y \<and> string_less xs ys))"

definition compare :: "js_string \<Rightarrow> js_string \<Rightarrow> int" where
  "compare a b = (if string_less a b then - 1 else if string_less b a then 1 else 0)"

subsection \<open>\<^verbatim>\<open>getTimestamp\<close>\<close>

text \<open>\<^verbatim>\<open>s.slice(start, end)\<close> for indices that are not negative.\<close>

definition slice :: "js_string \<Rightarrow> nat \<Rightarrow> nat \<Rightarrow> js_string" where
  "slice s start stop = take (stop - start) (drop start s)"

definition timestampHex :: "js_string \<Rightarrow> js_string" where
  "timestampHex uuid = slice uuid 0 8 @ slice uuid 9 13"

text \<open>The value of a digit of radix 16, if the code unit is one.\<close>

definition digit_value :: "code_unit \<Rightarrow> nat option" where
  "digit_value c =
     (if cu CHR ''0'' \<le> c \<and> c \<le> cu CHR ''9'' then Some (unat c - unat (cu CHR ''0''))
      else if cu CHR ''a'' \<le> c \<and> c \<le> cu CHR ''f'' then Some (unat c - unat (cu CHR ''a'') + 10)
      else if cu CHR ''A'' \<le> c \<and> c \<le> cu CHR ''F'' then Some (unat c - unat (cu CHR ''A'') + 10)
      else None)"

text \<open>The code units that \<^verbatim>\<open>parseInt\<close> skips at the start: white space and line terminators.\<close>

definition is_white_space :: "code_unit \<Rightarrow> bool" where
  "is_white_space c \<longleftrightarrow>
     c \<in> {0x09, 0x0A, 0x0B, 0x0C, 0x0D, 0x20, 0xA0, 0x1680, 0x2028, 0x2029, 0x202F, 0x205F,
          0x3000, 0xFEFF}
     \<or> (0x2000 \<le> c \<and> c \<le> 0x200A)"

text \<open>
  \<^verbatim>\<open>parseInt(string, 16)\<close>: leading white space is dropped, then a sign, then a
  prefix \<^verbatim>\<open>0x\<close> or \<^verbatim>\<open>0X\<close>; the longest run of digits that follows is read in radix 16,
  and an empty run gives \<^verbatim>\<open>NaN\<close>. The integer is exact as a double below \<open>2^53\<close>, that
  is for every run of at most 13 digits; \<^verbatim>\<open>getTimestamp\<close> passes 12 code units at most.
\<close>

definition strip_sign :: "js_string \<Rightarrow> int \<times> js_string" where
  "strip_sign s =
     (case s of
        [] \<Rightarrow> (1, [])
      | c # r \<Rightarrow> if c = cu CHR ''-'' then (- 1, r) else if c = cu CHR ''+'' then (1, r) else (1, s))"

definition strip_prefix :: "js_string \<Rightarrow> js_string" where
  "strip_prefix s =
     (case s of
        c # d # r \<Rightarrow> if c = cu CHR ''0'' \<and> (d = cu CHR ''x'' \<or> d = cu CHR ''X'') then r else s
      | _ \<Rightarrow> s)"

definition parseInt16 :: "js_string \<Rightarrow> number" where
  "parseInt16 string =
     (let (sign, s) = strip_sign (dropWhile is_white_space string);
          z = takeWhile (\<lambda>c. digit_value c \<noteq> None) (strip_prefix s)
      in if z = [] then NaN
         else Finite (of_int (sign * int (foldl (\<lambda>n c. 16 * n + the (digit_value c)) 0 z))))"

text \<open>
  \<^verbatim>\<open>new Date(value)\<close> for a number: the time value is clipped, so a value that is not
  finite or lies more than \<open>8.64 * 10^15\<close> milliseconds from the epoch gives an invalid
  date, and a fraction is cut off.
\<close>

datatype date = Invalid_Date | Date int

fun new_Date :: "number \<Rightarrow> date" where
  "new_Date (Finite q) =
     (if \<bar>q\<bar> > 8640000000000000 then Invalid_Date
      else Date (if 0 \<le> q then \<lfloor>q\<rfloor> else \<lceil>q\<rceil>))"
| "new_Date _ = Invalid_Date"

definition getTimestamp :: "js_string \<Rightarrow> date" where
  "getTimestamp uuid = new_Date (parseInt16 (timestampHex uuid))"

section \<open>The structural pattern, as the specification words it\<close>

definition is_hex_digit :: "code_unit \<Rightarrow> bool" where
  "is_hex_digit c \<longleftrightarrow> c \<in> set (lit ''0123456789abcdefABCDEF'')"

definition is_variant_digit :: "code_unit \<Rightarrow> bool" where
  "is_variant_digit c \<longleftrightarrow> c \<in> set (lit ''89abAB'')"

text \<open>
  36 characters; hyphens at the positions 8, 13, 18 and 23 and hexadecimal digits of
  either case everywhere else; \<^verbatim>\<open>7\<close> at position 14; one of \<^verbatim>\<open>8\<close>, \<^verbatim>\<open>9\<close>, \<^verbatim>\<open>a\<close>,
  \<^verbatim>\<open>b\<close> of either case at position 19.
\<close>

definition uuid7_pattern :: "js_string \<Rightarrow> bool" where
  "uuid7_pattern s \<longleftrightarrow>
     length s = 36 \<and>
     (\<forall>i<36. if i \<in> {8, 13, 18, 23} then s ! i = cu CHR ''-'' else is_hex_digit (s ! i)) \<and>
     s ! 14 = cu CHR ''7'' \<and>
     is_variant_digit (s ! 19)"

text \<open>
  The number that a string of hexadecimal digits denotes, position by position: the
  digit at index \<open>i\<close> of \<open>n\<close> digits counts \<open>16 ^ (n - 1 - i)\<close>.
\<close>

definition hex_number :: "js_string \<Rightarrow> nat" where
  "hex_number ds = (\<Sum>i<length ds. the (digit_value (ds ! i)) * 16 ^ (length ds - 1 - i))"

text \<open>
  Identifiers whose timestamp digits are written in one letter case: the twelve digits
  of both are taken from \<^verbatim>\<open>0-9a-f\<close>, or the twelve digits of both are taken from
  \<^verbatim>\<open>0-9A-F\<close>.
\<close>

definition lower_hex_digit :: "code_unit \<Rightarrow> bool" where
  "lower_hex_digit c \<longleftrightarrow> c \<in> set (lit ''0123456789abcdef'')"

definition upper_hex_digit :: "code_unit \<Rightarrow> bool" where
  "upper_hex_digit c \<longleftrightarrow> c \<in> set (lit ''0123456789ABCDEF'')"

definition one_letter_case :: "js_string \<Rightarrow> js_string \<Rightarrow> bool" where
  "one_letter_case a b \<longleftrightarrow>
     (\<forall>c \<in> set (timestampHex a @ timestampHex b). lower_hex_digit c)
     \<or> (\<forall>c \<in> set (timestampHex a @ timestampHex b). upper_hex_digit c)"

text \<open>The values that the next \<open>n\<close> calls of the generator yield, from the state \<open>g\<close> on.\<close>

fun outputs :: "'g generator \<Rightarrow> nat \<Rightarrow> 'g \<Rightarrow> js_string option list" where
  "outputs gen 0 g = []"
| "outputs gen (Suc n) g = fst (gen g) # outputs gen n (snd (gen g))"

section \<open>Instances of the external parts, for the examples\<close>

text \<open>An upper-casing table in which no unit from 128 on has an upper-case form of its own.\<close>

definition plain_case :: "code_unit \<Rightarrow> code_unit list" where
  "plain_case c = [c]"

text \<open>A generator that aborts at every call, and one that yields the same identifier at every call.\<close>

definition aborting_generator :: "nat generator" where
  "aborting_generator g = (None, Suc g)"

definition constant_generator :: "nat generator" where
  "constant_generator g = (Some (lit ''01923f4a-7b3d-7123-8456-426614174000''), Suc g)"

text \<open>
  A conversion of numbers to strings that agrees with the platform's on the numbers the
  examples convert: \<^verbatim>\<open>NaN\<close>, the infinities, \<open>-1\<close> and \<open>1.5\<close>.
\<close>

fun example_ToString :: "number \<Rightarrow> js_string" where
  "example_ToString NaN = lit ''NaN''"
| "example_ToString PosInfinity = lit ''Infinity''"
| "example_ToString NegInfinity = lit ''-Infinity''"
| "example_ToString (Finite q) = (if q = - 1 then lit ''-1'' else if q = 3 / 2 then lit ''1.5'' else [])"

section \<open>Code units and case folding\<close>

lemma cu_simps:
  "cu CHR ''0'' = 0x30" "cu CHR ''9'' = 0x39" "cu CHR ''a'' = 0x61" "cu CHR ''f'' = 0x66"
  "cu CHR ''-'' = 0x2D" "cu CHR ''7'' = 0x37" "cu CHR ''8'' = 0x38" "cu CHR ''b'' = 0x62"
  "cu CHR ''A'' = 0x41" "cu CHR ''B'' = 0x42" "cu CHR ''F'' = 0x46" "cu CHR ''+'' = 0x2B"
  "cu CHR ''x'' = 0x78" "cu CHR ''X'' = 0x58"
  by (simp_all add: cu_def)

lemma unat_ascii_upper:
  "unat (ascii_upper c) = (if 97 \<le> unat c \<and> unat c \<le> 122 then unat c - 32 else unat c)"
  by (simp add: ascii_upper_def word_le_nat_alt unat_sub)

lemma ascii_upper_less: "a < 128 \<Longrightarrow> ascii_upper a < 128"
  by (auto simp: word_less_nat_alt unat_ascii_upper)

lemma Canonicalize_ge: "\<not> ch < 128 \<Longrightarrow> \<not> Canonicalize uc True ch < 128"
  by (auto simp: Canonicalize_def split: list.splits)

text \<open>Under \<^verbatim>\<open>i\<close>, an ASCII pattern character is matched by ASCII input only.\<close>

lemma canon_ascii:
  assumes "a < 128"
  shows "Canonicalize uc True a = Canonicalize uc True ch \<longleftrightarrow> ch < 128 \<and> ascii_upper a = ascii_upper ch"
proof (cases "ch < 128")
  case True
  with assms show ?thesis by (simp add: Canonicalize_def)
next
  case False
  have "Canonicalize uc True a < 128"
    using assms by (simp add: Canonicalize_def ascii_upper_less)
  with Canonicalize_ge [OF False, of uc] False show ?thesis by auto
qed

lemma set_units: "set (units lo hi) = {lo..hi}"
proof (intro set_eqI iffI)
  fix a assume "a \<in> set (units lo hi)"
  then obtain n where n: "a = of_nat n" "unat lo \<le> n" "n \<le> unat hi"
    by (auto simp: units_def)
  have "n < 2 ^ 16" using n(3) unsigned_less [of hi, where ?'a = nat] by simp
  then have "unat (of_nat n :: code_unit) = n" by (simp add: unat_of_nat)
  then show "a \<in> {lo..hi}" using n by (simp add: word_le_nat_alt)
next
  fix a assume "a \<in> {lo..hi}"
  then have "unat a \<in> {unat lo..<Suc (unat hi)}" by (simp add: word_le_nat_alt)
  then have "of_nat (unat a) \<in> (of_nat ` {unat lo..<Suc (unat hi)} :: code_unit set)" by (rule imageI)
  then have "a \<in> of_nat ` {unat lo..<Suc (unat hi)}" by simp
  then show "a \<in> set (units lo hi)" unfolding units_def set_map set_upt .
qed

lemma class_match_iff:
  "atom_match uc ic (Class rs) ch \<longleftrightarrow>
     (\<exists>(lo, hi) \<in> set rs. \<exists>a. lo \<le> a \<and> a \<le> hi \<and> Canonicalize uc ic a = Canonicalize uc ic ch)"
  unfolding atom_match.simps list_ex_iff set_units by fastforce

section \<open>What the atoms of the pattern accept\<close>

lemma is_hex_digit_iff:
  "is_hex_digit c \<longleftrightarrow> (0x30 \<le> c \<and> c \<le> 0x39) \<or> (0x41 \<le> c \<and> c \<le> 0x46) \<or> (0x61 \<le> c \<and> c \<le> 0x66)"
  unfolding is_hex_digit_def lit_def
  by (simp add: cu_def word_le_nat_alt word_unat_eq_iff) arith

lemma hex_class_match [simp]: "atom_match uc True hex_class ch \<longleftrightarrow> is_hex_digit ch"
proof
  assume "atom_match uc True hex_class ch"
  then obtain a where a: "(0x30 \<le> a \<and> a \<le> 0x39) \<or> (0x61 \<le> a \<and> a \<le> 0x66)"
     and c: "Canonicalize uc True a = Canonicalize uc True ch"
    unfolding hex_class_def class_match_iff by (auto simp: cu_simps)
  from a have "a < 128" by (auto simp: word_le_nat_alt word_less_nat_alt)
  with c have "ch < 128" "unat (ascii_upper a) = unat (ascii_upper ch)"
    by (simp_all add: canon_ascii)
  with a show "is_hex_digit ch"
    by (auto simp: is_hex_digit_iff unat_ascii_upper word_le_nat_alt word_less_nat_alt split: if_splits)
next
  assume h: "is_hex_digit ch"
  then have lt: "ch < 128" by (auto simp: is_hex_digit_iff word_le_nat_alt word_less_nat_alt)
  show "atom_match uc True hex_class ch"
  proof (cases "0x41 \<le> ch \<and> ch \<le> 0x46")
    case True
    define a :: code_unit where "a = ch + 0x20"
    have "unat (ch + 0x20) = unat ch + unat (0x20 :: code_unit)"
      by (rule unat_add_lem [THEN iffD1]) (use True in \<open>simp add: word_le_nat_alt\<close>)
    then have ua: "unat a = unat ch + 32" unfolding a_def by simp
    have "0x61 \<le> a \<and> a \<le> 0x66 \<and> a < 128 \<and> ascii_upper a = ascii_upper ch"
      using True by (simp add: word_le_nat_alt word_less_nat_alt word_unat_eq_iff unat_ascii_upper ua)
    then show ?thesis
      using lt unfolding hex_class_def class_match_iff by (auto simp: cu_simps canon_ascii)
  next
    case False
    with h have "(0x30 \<le> ch \<and> ch \<le> 0x39) \<or> (0x61 \<le> ch \<and> ch \<le> 0x66)"
      by (auto simp: is_hex_digit_iff)
    then show ?thesis
      using lt unfolding hex_class_def class_match_iff by (auto simp: cu_simps canon_ascii)
  qed
qed

lemma variant_class_match [simp]: "atom_match uc True variant_class ch \<longleftrightarrow> is_variant_digit ch"
proof
  assume "atom_match uc True variant_class ch"
  then obtain a where r: "(0x38 \<le> a \<and> a \<le> 0x38) \<or> (0x39 \<le> a \<and> a \<le> 0x39) \<or>
                          (0x61 \<le> a \<and> a \<le> 0x61) \<or> (0x62 \<le> a \<and> a \<le> 0x62)"
     and c: "Canonicalize uc True a = Canonicalize uc True ch"
    unfolding variant_class_def class_match_iff by (auto simp: cu_simps)
  from r have a: "a = 0x38 \<or> a = 0x39 \<or> a = 0x61 \<or> a = 0x62" by auto
  then have "a < 128" by auto
  with c have "ch < 128" "unat (ascii_upper a) = unat (ascii_upper ch)"
    by (simp_all add: canon_ascii)
  with a show "is_variant_digit ch"
    unfolding is_variant_digit_def lit_def
    by (auto simp: cu_def unat_ascii_upper word_less_nat_alt word_unat_eq_iff split: if_splits)
next
  assume "is_variant_digit ch"
  then consider "ch = 0x38" | "ch = 0x39" | "ch = 0x61" | "ch = 0x62" | "ch = 0x41" | "ch = 0x42"
    unfolding is_variant_digit_def lit_def by (auto simp: cu_def)
  then show "atom_match uc True variant_class ch"
  proof cases
    case 5
    have "Canonicalize uc True 0x61 = Canonicalize uc True ch"
      using 5 by (simp add: Canonicalize_def ascii_upper_def)
    then show ?thesis unfolding variant_class_def class_match_iff by (auto simp: cu_simps)
  next
    case 6
    have "Canonicalize uc True 0x62 = Canonicalize uc True ch"
      using 6 by (simp add: Canonicalize_def ascii_upper_def)
    then show ?thesis unfolding variant_class_def class_match_iff by (auto simp: cu_simps)
  qed (auto simp: variant_class_def class_match_iff cu_simps simp del: atom_match.simps)
qed

text \<open>A literal that is not a letter is matched by itself only.\<close>

lemma lit_match_fixed:
  assumes "a < 128" "\<not> (0x41 \<le> a \<and> a \<le> 0x5A)" "\<not> (0x61 \<le> a \<and> a \<le> 0x7A)"
  shows "atom_match uc True (Lit a) ch \<longleftrightarrow> ch = a"
proof -
  have "atom_match uc True (Lit a) ch \<longleftrightarrow> ch < 128 \<and> ascii_upper a = ascii_upper ch"
    using assms(1) by (simp add: canon_ascii)
  also have "\<dots> \<longleftrightarrow> ch < 128 \<and> unat (ascii_upper a) = unat (ascii_upper ch)"
    by (simp only: word_unat_eq_iff)
  also have "\<dots> \<longleftrightarrow> unat ch = unat a"
    using assms by (auto simp: unat_ascii_upper word_less_nat_alt word_le_nat_alt)
  finally show ?thesis by (auto simp: word_unat_eq_iff)
qed

lemma hyphen_match [simp]: "atom_match uc True (Lit (cu CHR ''-'')) ch \<longleftrightarrow> ch = cu CHR ''-''"
  by (rule lit_match_fixed) (simp_all add: cu_simps)

lemma seven_match [simp]: "atom_match uc True (Lit (cu CHR ''7'')) ch \<longleftrightarrow> ch = cu CHR ''7''"
  by (rule lit_match_fixed) (simp_all add: cu_simps)

lemma seven_is_hex: "is_hex_digit (cu CHR ''7'')"
  by (simp add: is_hex_digit_def lit_def)

lemma variant_is_hex: "is_variant_digit c \<Longrightarrow> is_hex_digit c"
  by (auto simp: is_hex_digit_def is_variant_digit_def lit_def)

section \<open>The pattern matches exactly the strings of the structural form\<close>

lemma times_match_Some:
  "times_match uc ic a n s = Some s' \<longleftrightarrow>
     n \<le> length s \<and> (\<forall>c \<in> set (take n s). atom_match uc ic a c) \<and> s' = drop n s"
  by (induction uc ic a n s rule: times_match.induct) auto

lemma times_match_eq:
  "times_match uc ic a n s =
     (if n \<le> length s \<and> (\<forall>c \<in> set (take n s). atom_match uc ic a c) then Some (drop n s) else None)"
proof (cases "times_match uc ic a n s")
  case None
  then have "\<not> (n \<le> length s \<and> (\<forall>c \<in> set (take n s). atom_match uc ic a c))"
    using times_match_Some [of uc ic a n s "drop n s"] by auto
  with None show ?thesis by simp
next
  case (Some s')
  then show ?thesis using times_match_Some [of uc ic a n s s'] by simp
qed

lemma match_here_Times:
  "match_here uc ic (Times a n # ns) b s \<longleftrightarrow>
     n \<le> length s \<and> (\<forall>c \<in> set (take n s). atom_match uc ic a c) \<and>
     match_here uc ic ns (b \<and> n = 0) (drop n s)"
  by (simp add: times_match_eq)

lemma match_here_One:
  "match_here uc ic (One a # ns) b s \<longleftrightarrow>
     0 < length s \<and> atom_match uc ic a (s ! 0) \<and> match_here uc ic ns False (drop 1 s)"
  by (cases s) auto

text \<open>With \<^verbatim>\<open>^\<close> in front, only the start position 0 can match.\<close>

lemma test_anchored: "test uc \<lparr>nodes = Bol # ns, ignoreCase = ic\<rparr> s = match_here uc ic ns True s"
proof -
  have "[0..<Suc (length s)] = 0 # [Suc 0..<Suc (length s)]" by (simp add: upt_rec)
  then show ?thesis by (auto simp: test_def list_ex_iff)
qed

lemma match_len:
  assumes "match_here uc True (tl (nodes validateUUID7)) True s"
  shows "length s = 36"
proof -
  from assms have "12 \<le> length s - 24 \<and> length s \<le> 36"
    by (simp add: validateUUID7_def match_here_Times match_here_One
          del: match_here.simps(4,5) atom_match.simps)
  then show ?thesis by linarith
qed

lemma length_36_explicit:
  assumes "length (s :: 'a list) = 36"
  obtains c0 c1 c2 c3 c4 c5 c6 c7 c8 c9 c10 c11 c12 c13 c14 c15 c16 c17 c18 c19 c20 c21 c22 c23 c24 c25 c26 c27 c28 c29 c30 c31 c32 c33 c34 c35
    where "s = [c0, c1, c2, c3, c4, c5, c6, c7, c8, c9, c10, c11, c12, c13, c14, c15, c16, c17, c18, c19, c20, c21, c22, c23, c24, c25, c26, c27, c28, c29, c30, c31, c32, c33, c34, c35]"
  using assms by (auto simp: numeral_eq_Suc length_Suc_conv)

lemma times_match_numeral:
  "times_match uc ic a (numeral k) (ch # s) =
     (if atom_match uc ic a ch then times_match uc ic a (pred_numeral k) s else None)"
  by (simp add: numeral_eq_Suc)

lemma All_less_numeral:
  "(\<forall>i<numeral k. P i) \<longleftrightarrow> P (pred_numeral k) \<and> (\<forall>i<pred_numeral k. P i)"
  by (simp add: numeral_eq_Suc All_less_Suc)

lemma validate_iff_pattern:
  "match_here uc True (tl (nodes validateUUID7)) True s \<longleftrightarrow> uuid7_pattern s"
proof (cases "length s = 36")
  case False
  then show ?thesis using match_len [of uc s] by (auto simp: uuid7_pattern_def)
next
  case True
  then obtain c0 c1 c2 c3 c4 c5 c6 c7 c8 c9 c10 c11 c12 c13 c14 c15 c16 c17 c18 c19 c20 c21 c22 c23 c24 c25 c26 c27 c28 c29 c30 c31 c32 c33 c34 c35
    where s: "s = [c0, c1, c2, c3, c4, c5, c6, c7, c8, c9, c10, c11, c12, c13, c14, c15, c16, c17, c18, c19, c20, c21, c22, c23, c24, c25, c26, c27, c28, c29, c30, c31, c32, c33, c34, c35]"
    by (rule length_36_explicit)
  show ?thesis
    unfolding s validateUUID7_def uuid7_pattern_def
    by (simp add: times_match_numeral All_less_numeral All_less_Suc del: atom_match.simps)
       (use seven_is_hex variant_is_hex in blast)
qed

lemma test_validate: "test uc validateUUID7 s \<longleftrightarrow> uuid7_pattern s"
proof -
  have "test uc validateUUID7 s \<longleftrightarrow> match_here uc True (tl (nodes validateUUID7)) True s"
    unfolding validateUUID7_def by (simp only: test_anchored regex.simps list.sel)
  then show ?thesis by (simp only: validate_iff_pattern)
qed

lemma isValid_iff: "isValid uc s \<longleftrightarrow> uuid7_pattern s"
  by (simp add: isValid_def test_validate)

section \<open>Validation\<close>

text \<open>
  C1. For every string, \<^verbatim>\<open>isValid\<close> answers true exactly for the strings of the
  structural pattern: 36 characters, hyphens at the positions 8, 13, 18 and 23,
  hexadecimal digits of either case at all other positions, \<^verbatim>\<open>7\<close> at position 14 and
  one of \<^verbatim>\<open>8\<close>, \<^verbatim>\<open>9\<close>, \<^verbatim>\<open>a\<close>, \<^verbatim>\<open>b\<close> of either case at position 19. The result is a
  boolean for every input string; \<^verbatim>\<open>isValid\<close> has no error result.
\<close>

theorem C1_isValid_iff_pattern: "isValid uc s \<longleftrightarrow> uuid7_pattern s"
  by (simp only: isValid_def test_validate)

theorem C1_isValid_iff_pattern_witness:
  "isValid plain_case (lit ''01923f4a-7b3d-7123-8456-426614174000'')
   \<and> uuid7_pattern (lit ''01923f4a-7b3d-7123-8456-426614174000'')
   \<and> \<not> isValid plain_case (lit ''01923f4a-7b3d-7123-c456-426614174000'')
   \<and> \<not> uuid7_pattern (lit ''01923f4a-7b3d-7123-c456-426614174000'')"
proof -
  have "isValid plain_case (lit ''01923f4a-7b3d-7123-8456-426614174000'')"
    by code_simp
  moreover have "\<not> isValid plain_case (lit ''01923f4a-7b3d-7123-c456-426614174000'')"
    by code_simp
  ultimately show ?thesis
    using C1_isValid_iff_pattern [of plain_case "lit ''01923f4a-7b3d-7123-8456-426614174000''"]
          C1_isValid_iff_pattern [of plain_case "lit ''01923f4a-7b3d-7123-c456-426614174000''"]
    by simp
qed

section \<open>Strict and safe conversion\<close>

lemma not_isValid_Nil: "\<not> isValid uc []"
  by (simp add: isValid_iff uuid7_pattern_def)

lemma fromString_eq:
  "fromString uc s = (if isValid uc s then Inr s else Inl (Error (lit ''Invalid UUIDv7 format: '' @ s)))"
  by (simp add: fromString_def isValid_def)

text \<open>
  C4. For every string \<open>s\<close> that \<^verbatim>\<open>isValid\<close> accepts, \<^verbatim>\<open>fromString(s)\<close> succeeds, its
  value is \<open>s\<close> itself, code unit for code unit (no normalisation, the letter case
  stays as given), and \<^verbatim>\<open>isValid\<close> accepts that value.
\<close>

theorem C4_fromString_roundtrip:
  "isValid uc s \<Longrightarrow> (case fromString uc s of Inl e \<Rightarrow> False | Inr v \<Rightarrow> v = s \<and> isValid uc v)"
  by (simp add: fromString_eq)

theorem C4_fromString_roundtrip_witness:
  "isValid plain_case (lit ''01923F4A-7B3D-7123-B456-426614174000'')
   \<and> fromString plain_case (lit ''01923F4A-7B3D-7123-B456-426614174000'') = Inr (lit ''01923F4A-7B3D-7123-B456-426614174000'')"
proof -
  have v: "isValid plain_case (lit ''01923F4A-7B3D-7123-B456-426614174000'')"
    by code_simp
  show ?thesis
    using v C4_fromString_roundtrip [OF v] by (simp split: sum.splits)
qed

text \<open>
  C5. For every string \<open>s\<close> that does not have the structural form, \<^verbatim>\<open>isValid(s)\<close> is
  false, \<^verbatim>\<open>fromString(s)\<close> fails with the error whose message is
  \<^verbatim>\<open>Invalid UUIDv7 format: \<close> followed by \<open>s\<close>, and \<^verbatim>\<open>tryFromString(s)\<close> is \<^verbatim>\<open>null\<close>
  (an ordinary result, not an error). For every string, \<^verbatim>\<open>tryFromString\<close> yields a
  value exactly when \<^verbatim>\<open>fromString\<close> yields that value.
\<close>

theorem C5_rejection:
  "(\<not> uuid7_pattern s \<longrightarrow>
      \<not> isValid uc s
      \<and> fromString uc s = Inl (Error (lit ''Invalid UUIDv7 format: '' @ s))
      \<and> tryFromString uc s = None)
   \<and> (tryFromString uc t = Some v \<longleftrightarrow> fromString uc t = Inr v)"
  by (auto simp: fromString_eq tryFromString_def isValid_iff)

theorem C5_rejection_witness:
  "\<not> uuid7_pattern (lit ''not-a-uuid'')
   \<and> \<not> isValid plain_case (lit ''not-a-uuid'')
   \<and> fromString plain_case (lit ''not-a-uuid'') = Inl (Error (lit ''Invalid UUIDv7 format: not-a-uuid''))
   \<and> tryFromString plain_case (lit ''not-a-uuid'') = None"
proof -
  have n: "\<not> uuid7_pattern (lit ''not-a-uuid'')"
    by (simp add: uuid7_pattern_def lit_def)
  show ?thesis
    using n C5_rejection [of "lit ''not-a-uuid''" plain_case "[]" "[]"] by (simp add: lit_def)
qed

section \<open>Generation\<close>

lemma create_eq:
  "create uc gen g =
     (case fst (gen g) of
        None \<Rightarrow> (Inl (Error (lit ''Invalid UUIDv7 format: '')), snd (gen g))
      | Some v \<Rightarrow> if isValid uc v then (Inr v, snd (gen g))
                  else (Inl (Error (lit ''Invalid UUIDv7 format: '' @ v)), snd (gen g)))"
  using not_isValid_Nil [of uc]
  by (auto simp: create_def isValid_def Let_def split: prod.splits option.splits)

text \<open>
  C7. Every value that \<^verbatim>\<open>create()\<close> returns is accepted by \<^verbatim>\<open>isValid\<close>; \<^verbatim>\<open>create()\<close>
  fails exactly when the generator yields no value, the empty string, or a string that
  \<^verbatim>\<open>isValid\<close> rejects; and its only failure is the error with the message
  \<^verbatim>\<open>Invalid UUIDv7 format: \<close> followed by the value.
\<close>

theorem C7_create:
  "(fst (create uc gen g) = Inr v \<longrightarrow> isValid uc v)
   \<and> ((\<exists>e. fst (create uc gen g) = Inl e) \<longleftrightarrow>
        fst (gen g) = None \<or> fst (gen g) = Some [] \<or> (\<exists>w. fst (gen g) = Some w \<and> \<not> isValid uc w))
   \<and> (\<forall>e. fst (create uc gen g) = Inl e \<longrightarrow>
        e = Error (lit ''Invalid UUIDv7 format: '' @ (case fst (gen g) of None \<Rightarrow> [] | Some w \<Rightarrow> w)))"
proof (cases "fst (gen g)")
  case None
  then show ?thesis by (simp add: create_eq)
next
  case (Some w)
  then show ?thesis using not_isValid_Nil [of uc] by (auto simp: create_eq)
qed

theorem C7_create_witness:
  "fst (create plain_case (\<lambda>g::nat. (Some (lit ''01923f4a-7b3d-7123-8456-426614174000''), Suc g)) 0)
     = Inr (lit ''01923f4a-7b3d-7123-8456-426614174000'')
   \<and> isValid plain_case (lit ''01923f4a-7b3d-7123-8456-426614174000'')
   \<and> fst (create plain_case (\<lambda>g::nat. (None, Suc g)) 0) = Inl (Error (lit ''Invalid UUIDv7 format: ''))"
proof -
  have r: "fst (create plain_case (\<lambda>g::nat. (Some (lit ''01923f4a-7b3d-7123-8456-426614174000''), Suc g)) 0)
             = Inr (lit ''01923f4a-7b3d-7123-8456-426614174000'')"
    by code_simp
  have "fst (create plain_case (\<lambda>g::nat. (None, Suc g)) 0) = Inl (Error (lit ''Invalid UUIDv7 format: ''))"
    using C7_create [of plain_case "\<lambda>g::nat. (None, Suc g)" 0 "[]"] by (simp add: create_eq)
  then show ?thesis
    using r C7_create [of plain_case "\<lambda>g::nat. (Some (lit ''01923f4a-7b3d-7123-8456-426614174000''), Suc g)" 0
                          "lit ''01923f4a-7b3d-7123-8456-426614174000''"]
    by simp
qed

text \<open>
  C10. The failure of \<^verbatim>\<open>create()\<close> for a generator that yields a rejected string and the
  failure of \<^verbatim>\<open>fromString\<close> for that string are one and the same error value: a plain
  \<^verbatim>\<open>Error\<close> with the message \<^verbatim>\<open>Invalid UUIDv7 format: \<close> followed by the string. When
  the generator aborts, the message ends with the empty string.
\<close>

theorem C10_same_error:
  "(fst (gen g) = Some v \<and> \<not> isValid uc v \<longrightarrow>
      fst (create uc gen g) = Inl (Error (lit ''Invalid UUIDv7 format: '' @ v))
      \<and> fromString uc v = Inl (Error (lit ''Invalid UUIDv7 format: '' @ v)))
   \<and> (fst (gen g) = None \<longrightarrow>
      fst (create uc gen g) = Inl (Error (lit ''Invalid UUIDv7 format: '' @ [])))"
  by (auto simp: create_eq fromString_eq)

theorem C10_same_error_witness:
  "fst (create plain_case (\<lambda>g::nat. (Some (lit ''not-a-uuid''), Suc g)) 0)
     = Inl (Error (lit ''Invalid UUIDv7 format: not-a-uuid''))
   \<and> fromString plain_case (lit ''not-a-uuid'') = Inl (Error (lit ''Invalid UUIDv7 format: not-a-uuid''))
   \<and> fst (create plain_case (\<lambda>g::nat. (None, Suc g)) 0) = Inl (Error (lit ''Invalid UUIDv7 format: ''))"
proof -
  have n: "\<not> isValid plain_case (lit ''not-a-uuid'')"
    by (simp add: isValid_iff uuid7_pattern_def lit_def)
  show ?thesis
    using n C10_same_error [of "\<lambda>g::nat. (Some (lit ''not-a-uuid''), Suc g)" 0 "lit ''not-a-uuid''" plain_case]
          C10_same_error [of "\<lambda>g::nat. (None, Suc g)" 0 "[]" plain_case]
    by (simp add: lit_def)
qed

section \<open>Comparison\<close>

lemma string_less_irrefl: "\<not> string_less a a"
  by (induction a) auto

lemma string_less_asym: "string_less a b \<Longrightarrow> \<not> string_less b a"
  by (induction a b rule: string_less.induct) auto

lemma string_less_total: "a \<noteq> b \<Longrightarrow> string_less a b \<or> string_less b a"
  by (induction a b rule: string_less.induct) auto

lemma string_less_lexord: "string_less a b \<longleftrightarrow> (a, b) \<in> lexord {(x, y). x < y}"
  by (induction a b rule: string_less.induct) auto

text \<open>
  C8. For all strings \<open>a\<close> and \<open>b\<close>, \<^verbatim>\<open>compare(a, b)\<close> is \<open>-1\<close> if \<open>a\<close> comes before \<open>b\<close>
  in the lexicographic order of their code units, \<open>1\<close> if it comes after, and \<open>0\<close>
  exactly when the two are the same string. The result is a number for every pair.
\<close>

theorem C8_compare_lexicographic:
  "((a, b) \<in> lexord {(x, y). x < y} \<longrightarrow> compare a b = - 1)
   \<and> ((b, a) \<in> lexord {(x, y). x < y} \<longrightarrow> compare a b = 1)
   \<and> (compare a b = 0 \<longleftrightarrow> a = b)"
  using string_less_asym [of a b] string_less_total [of a b] string_less_irrefl [of a]
  by (auto simp: compare_def string_less_lexord [symmetric])

theorem C8_compare_lexicographic_witness:
  "(lit ''01923f4a-7b3d-7123-8456-426614174000'', lit ''01923f4a-7b3d-7123-8456-426614174001'')
     \<in> lexord {(x, y). x < y}
   \<and> compare (lit ''01923f4a-7b3d-7123-8456-426614174000'') (lit ''01923f4a-7b3d-7123-8456-426614174001'') = - 1
   \<and> compare (lit ''01923f4a-7b3d-7123-8456-426614174001'') (lit ''01923f4a-7b3d-7123-8456-426614174000'') = 1
   \<and> compare (lit ''01923f4a-7b3d-7123-8456-426614174000'') (lit ''01923f4a-7b3d-7123-8456-426614174000'') = 0"
proof -
  have l: "(lit ''01923f4a-7b3d-7123-8456-426614174000'', lit ''01923f4a-7b3d-7123-8456-426614174001'')
             \<in> lexord {(x, y). x < y}"
    by (simp add: lit_def cu_def)
  show ?thesis
    using l
      C8_compare_lexicographic [of "lit ''01923f4a-7b3d-7123-8456-426614174000''"
                                   "lit ''01923f4a-7b3d-7123-8456-426614174001''"]
      C8_compare_lexicographic [of "lit ''01923f4a-7b3d-7123-8456-426614174001''"
                                   "lit ''01923f4a-7b3d-7123-8456-426614174000''"]
      C8_compare_lexicographic [of "lit ''01923f4a-7b3d-7123-8456-426614174000''"
                                   "lit ''01923f4a-7b3d-7123-8456-426614174000''"]
    by simp
qed

section \<open>Decoding the timestamp\<close>

lemma hex_digit_props:
  assumes "is_hex_digit c"
  shows "\<not> is_white_space c" "c \<noteq> cu CHR ''-''" "c \<noteq> cu CHR ''+''" "c \<noteq> cu CHR ''x''" "c \<noteq> cu CHR ''X''"
    "digit_value c \<noteq> None" "the (digit_value c) < 16"
  using assms
  by (auto simp: is_hex_digit_iff is_white_space_def digit_value_def cu_simps word_le_nat_alt word_unat_eq_iff)

lemma digit_value_hex: "digit_value c \<noteq> None \<longleftrightarrow> is_hex_digit c"
  by (auto simp: is_hex_digit_iff digit_value_def cu_simps)

lemma hex_number_snoc: "hex_number (ds @ [d]) = 16 * hex_number ds + the (digit_value d)"
proof -
  have "(\<Sum>i<length ds. the (digit_value ((ds @ [d]) ! i)) * 16 ^ (length ds - i))
      = (\<Sum>i<length ds. 16 * (the (digit_value (ds ! i)) * 16 ^ (length ds - 1 - i)))"
  proof (rule sum.cong)
    fix i assume "i \<in> {..<length ds}"
    then have i: "i < length ds" by simp
    then have "length ds - i = Suc (length ds - 1 - i)" by simp
    then show "the (digit_value ((ds @ [d]) ! i)) * 16 ^ (length ds - i)
         = 16 * (the (digit_value (ds ! i)) * 16 ^ (length ds - 1 - i))"
      using i by (simp add: nth_append)
  qed simp
  then show ?thesis
    by (simp add: hex_number_def sum_distrib_left)
qed

lemma horner_hex_number: "foldl (\<lambda>n c. 16 * n + the (digit_value c)) 0 ds = hex_number ds"
proof (induction ds rule: rev_induct)
  case Nil
  show ?case by (simp add: hex_number_def)
next
  case (snoc d ds)
  then show ?case by (simp add: hex_number_snoc)
qed

lemma hex_number_bound: "\<forall>c \<in> set ds. is_hex_digit c \<Longrightarrow> hex_number ds < 16 ^ length ds"
proof (induction ds rule: rev_induct)
  case Nil
  show ?case by (simp add: hex_number_def)
next
  case (snoc d ds)
  then have "hex_number ds < 16 ^ length ds" "the (digit_value d) < 16"
    by (simp_all add: hex_digit_props)
  then show ?case by (simp add: hex_number_snoc)
qed

lemma parseInt16_hex:
  assumes "z \<noteq> []" "\<forall>c \<in> set z. is_hex_digit c"
  shows "parseInt16 z = Finite (of_nat (hex_number z))"
proof -
  obtain c r where z: "z = c # r" using assms(1) by (cases z) auto
  have c: "is_hex_digit c" using assms(2) z by simp
  have 1: "dropWhile is_white_space z = z"
    using c z by (simp add: hex_digit_props)
  have 2: "strip_sign z = (1, z)"
    using c z by (simp add: strip_sign_def hex_digit_props)
  have 3: "strip_prefix z = z"
  proof (cases r)
    case Nil
    then show ?thesis using z by (simp add: strip_prefix_def)
  next
    case (Cons d r')
    then have "is_hex_digit d" using assms(2) z by simp
    then show ?thesis using z Cons by (simp add: strip_prefix_def hex_digit_props)
  qed
  have 4: "takeWhile (\<lambda>c. digit_value c \<noteq> None) z = z"
    using assms(2) by (simp add: takeWhile_eq_all_conv digit_value_hex del: not_None_eq)
  show ?thesis
    using assms(1) by (simp add: parseInt16_def 1 2 3 4 horner_hex_number del: not_None_eq)
qed

lemma new_Date_nat: "n < 2 ^ 48 \<Longrightarrow> new_Date (Finite (of_nat n)) = Date (int n)"
proof -
  assume "n < 2 ^ 48"
  then have "(of_nat n :: rat) < of_nat (2 ^ 48)" by (simp only: of_nat_less_iff)
  then have "\<bar>of_nat n :: rat\<bar> \<le> 8640000000000000" by simp
  then show ?thesis by simp
qed

lemma timestampHex_explicit:
  "timestampHex [c0, c1, c2, c3, c4, c5, c6, c7, c8, c9, c10, c11, c12, c13, c14, c15, c16, c17, c18, c19, c20, c21, c22, c23, c24, c25, c26, c27, c28, c29, c30, c31, c32, c33, c34, c35] = [c0, c1, c2, c3, c4, c5, c6, c7, c9, c10, c11, c12]"
  by (simp add: timestampHex_def slice_def)

lemma timestampHex_positions:
  assumes "length s = 36"
  shows "timestampHex s = [s ! 0, s ! 1, s ! 2, s ! 3, s ! 4, s ! 5, s ! 6, s ! 7, s ! 9, s ! 10, s ! 11, s ! 12]"
proof -
  from assms obtain c0 c1 c2 c3 c4 c5 c6 c7 c8 c9 c10 c11 c12 c13 c14 c15 c16 c17 c18 c19 c20 c21 c22 c23 c24 c25 c26 c27 c28 c29 c30 c31 c32 c33 c34 c35
    where s: "s = [c0, c1, c2, c3, c4, c5, c6, c7, c8, c9, c10, c11, c12, c13, c14, c15, c16, c17, c18, c19, c20, c21, c22, c23, c24, c25, c26, c27, c28, c29, c30, c31, c32, c33, c34, c35]"
    by (rule length_36_explicit)
  show ?thesis unfolding s timestampHex_explicit by simp
qed

lemma timestampHex_valid:
  assumes "uuid7_pattern s"
  shows "length (timestampHex s) = 12" "\<forall>c \<in> set (timestampHex s). is_hex_digit c"
proof -
  from assms have "length s = 36" by (simp add: uuid7_pattern_def)
  then obtain c0 c1 c2 c3 c4 c5 c6 c7 c8 c9 c10 c11 c12 c13 c14 c15 c16 c17 c18 c19 c20 c21 c22 c23 c24 c25 c26 c27 c28 c29 c30 c31 c32 c33 c34 c35
    where s: "s = [c0, c1, c2, c3, c4, c5, c6, c7, c8, c9, c10, c11, c12, c13, c14, c15, c16, c17, c18, c19, c20, c21, c22, c23, c24, c25, c26, c27, c28, c29, c30, c31, c32, c33, c34, c35]"
    by (rule length_36_explicit)
  from assms show "length (timestampHex s) = 12" "\<forall>c \<in> set (timestampHex s). is_hex_digit c"
    unfolding s timestampHex_explicit uuid7_pattern_def
    by (simp_all add: All_less_numeral All_less_Suc)
qed

lemma getTimestamp_valid:
  assumes "uuid7_pattern s"
  shows "getTimestamp s = Date (int (hex_number (timestampHex s)))"
    and "hex_number (timestampHex s) < 2 ^ 48"
proof -
  note t = timestampHex_valid [OF assms]
  have ne: "timestampHex s \<noteq> []" using t(1) by auto
  have "hex_number (timestampHex s) < 16 ^ length (timestampHex s)"
    by (rule hex_number_bound [OF t(2)])
  then show b: "hex_number (timestampHex s) < 2 ^ 48" by (simp add: t(1))
  show "getTimestamp s = Date (int (hex_number (timestampHex s)))"
    by (simp only: getTimestamp_def parseInt16_hex [OF ne t(2)] new_Date_nat [OF b])
qed

lemma hex_number_example: "hex_number (lit ''01923f4a7b3d'') = 0x01923f4a7b3d"
  by (simp add: horner_hex_number [symmetric] lit_def digit_value_def cu_def)

lemma timestampHex_example:
  "timestampHex (lit ''01923f4a-7b3d-7123-8456-426614174000'') = lit ''01923f4a7b3d''"
  by (simp add: timestampHex_def slice_def lit_def)

lemma example_valid: "uuid7_pattern (lit ''01923f4a-7b3d-7123-8456-426614174000'')"
proof -
  have "isValid plain_case (lit ''01923f4a-7b3d-7123-8456-426614174000'')" by code_simp
  then show ?thesis by (simp only: isValid_iff)
qed

lemma getTimestamp_example:
  "getTimestamp (lit ''01923f4a-7b3d-7123-8456-426614174000'') = Date 0x01923f4a7b3d"
  by (simp add: getTimestamp_valid(1) [OF example_valid] timestampHex_example hex_number_example)

text \<open>
  C3. For every identifier that \<^verbatim>\<open>isValid\<close> accepts, \<^verbatim>\<open>getTimestamp\<close> takes the
  characters at the positions 0 to 7 and 9 to 12, which are twelve hexadecimal digits,
  and returns the date whose time value is the number those digits denote in base 16,
  in milliseconds since the epoch; the result is never the invalid date. For
  \<^verbatim>\<open>01923f4a-7b3d-7123-8456-426614174000\<close> the time value is \<open>0x01923f4a7b3d\<close>.
\<close>

theorem C3_getTimestamp:
  "(isValid uc s \<longrightarrow>
      timestampHex s = [s ! 0, s ! 1, s ! 2, s ! 3, s ! 4, s ! 5, s ! 6, s ! 7, s ! 9, s ! 10, s ! 11, s ! 12]
      \<and> (\<forall>c \<in> set (timestampHex s). is_hex_digit c)
      \<and> getTimestamp s = Date (int (hex_number (timestampHex s))))
   \<and> getTimestamp (lit ''01923f4a-7b3d-7123-8456-426614174000'') = Date 0x01923f4a7b3d"
proof (intro conjI impI)
  assume "isValid uc s"
  then have p: "uuid7_pattern s" by (simp only: isValid_iff)
  then have "length s = 36" by (simp add: uuid7_pattern_def)
  then show "timestampHex s = [s ! 0, s ! 1, s ! 2, s ! 3, s ! 4, s ! 5, s ! 6, s ! 7, s ! 9, s ! 10, s ! 11, s ! 12]"
    by (rule timestampHex_positions)
  show "\<forall>c \<in> set (timestampHex s). is_hex_digit c"
    by (rule timestampHex_valid(2) [OF p])
  show "getTimestamp s = Date (int (hex_number (timestampHex s)))"
    by (rule getTimestamp_valid(1) [OF p])
next
  show "getTimestamp (lit ''01923f4a-7b3d-7123-8456-426614174000'') = Date 0x01923f4a7b3d"
    by (rule getTimestamp_example)
qed

theorem C3_getTimestamp_witness:
  "isValid plain_case (lit ''01923F4A-7B3D-7123-B456-426614174000'')
   \<and> timestampHex (lit ''01923F4A-7B3D-7123-B456-426614174000'') = lit ''01923F4A7B3D''
   \<and> getTimestamp (lit ''01923F4A-7B3D-7123-B456-426614174000'') = Date (int (hex_number (lit ''01923F4A7B3D'')))"
proof -
  have v: "isValid plain_case (lit ''01923F4A-7B3D-7123-B456-426614174000'')"
    by code_simp
  have t: "timestampHex (lit ''01923F4A-7B3D-7123-B456-426614174000'') = lit ''01923F4A7B3D''"
    by (simp add: timestampHex_def slice_def lit_def)
  show ?thesis
    using v t C3_getTimestamp [of plain_case "lit ''01923F4A-7B3D-7123-B456-426614174000''"]
    by simp
qed

text \<open>
  C9. For every string that \<^verbatim>\<open>isValid\<close> accepts, parsing the twelve digits does not
  give \<^verbatim>\<open>NaN\<close>, and \<^verbatim>\<open>getTimestamp\<close> returns a valid date whose time value is an
  integer from 0 up to, and not including, \<open>2^48\<close>.
\<close>

theorem C9_timestamp_range:
  "isValid uc s \<Longrightarrow>
     parseInt16 (timestampHex s) \<noteq> NaN
     \<and> (\<exists>t. getTimestamp s = Date t \<and> 0 \<le> t \<and> t < 2 ^ 48)"
proof -
  assume "isValid uc s"
  then have p: "uuid7_pattern s" by (simp only: isValid_iff)
  note t = timestampHex_valid [OF p]
  have ne: "timestampHex s \<noteq> []" using t(1) by auto
  have "parseInt16 (timestampHex s) \<noteq> NaN"
    by (simp add: parseInt16_hex [OF ne t(2)])
  moreover have "int (hex_number (timestampHex s)) < 2 ^ 48"
  proof -
    have "int (hex_number (timestampHex s)) < int (2 ^ 48)"
      using getTimestamp_valid(2) [OF p] by (simp only: of_nat_less_iff)
    then show ?thesis by simp
  qed
  ultimately show ?thesis
    using getTimestamp_valid(1) [OF p] by simp
qed

theorem C9_timestamp_range_witness:
  "isValid plain_case (lit ''ffffffff-ffff-7fff-bfff-ffffffffffff'')
   \<and> parseInt16 (timestampHex (lit ''ffffffff-ffff-7fff-bfff-ffffffffffff'')) \<noteq> NaN
   \<and> getTimestamp (lit ''ffffffff-ffff-7fff-bfff-ffffffffffff'') \<noteq> Invalid_Date"
proof -
  have v: "isValid plain_case (lit ''ffffffff-ffff-7fff-bfff-ffffffffffff'')"
    by code_simp
  show ?thesis
    using v C9_timestamp_range [OF v] by auto
qed

section \<open>Comparison and the order of the timestamps\<close>

lemma lower_hex_digit_iff:
  "lower_hex_digit c \<longleftrightarrow> (0x30 \<le> c \<and> c \<le> 0x39) \<or> (0x61 \<le> c \<and> c \<le> 0x66)"
  unfolding lower_hex_digit_def lit_def
  by (simp add: cu_def word_le_nat_alt word_unat_eq_iff) arith

lemma upper_hex_digit_iff:
  "upper_hex_digit c \<longleftrightarrow> (0x30 \<le> c \<and> c \<le> 0x39) \<or> (0x41 \<le> c \<and> c \<le> 0x46)"
  unfolding upper_hex_digit_def lit_def
  by (simp add: cu_def word_le_nat_alt word_unat_eq_iff) arith

lemma digit_value_mono_lower:
  "lower_hex_digit x \<Longrightarrow> lower_hex_digit y \<Longrightarrow>
     (the (digit_value x) < the (digit_value y) \<longleftrightarrow> x < y)"
  by (auto simp: lower_hex_digit_iff digit_value_def cu_simps word_le_nat_alt word_less_nat_alt)

lemma digit_value_mono_upper:
  "upper_hex_digit x \<Longrightarrow> upper_hex_digit y \<Longrightarrow>
     (the (digit_value x) < the (digit_value y) \<longleftrightarrow> x < y)"
  by (auto simp: upper_hex_digit_iff digit_value_def cu_simps word_le_nat_alt word_less_nat_alt)

lemma horner_shift:
  "foldl (\<lambda>n c. 16 * n + the (digit_value c)) a ds
     = a * 16 ^ length ds + foldl (\<lambda>n c. 16 * n + the (digit_value c)) 0 ds"
proof (induction ds arbitrary: a)
  case Nil
  show ?case by simp
next
  case (Cons d ds)
  show ?case
    using Cons [of "16 * a + the (digit_value d)"] Cons [of "the (digit_value d)"]
    by (simp add: algebra_simps)
qed

lemma hex_number_Cons: "hex_number (d # ds) = the (digit_value d) * 16 ^ length ds + hex_number ds"
  using horner_shift [of "the (digit_value d)" ds]
  by (simp add: horner_hex_number [symmetric])

lemma hex_number_less_string_less:
  assumes "length xs = length ys"
    and "\<forall>c \<in> set xs \<union> set ys. is_hex_digit c"
    and "\<And>x y. x \<in> set xs \<union> set ys \<Longrightarrow> y \<in> set xs \<union> set ys \<Longrightarrow>
           (the (digit_value x) < the (digit_value y) \<longleftrightarrow> x < y)"
    and "hex_number xs < hex_number ys"
  shows "string_less xs ys"
  using assms
proof (induction xs ys rule: list_induct2)
  case Nil
  then show ?case by simp
next
  case (Cons x xs y ys)
  have "hex_number ys < 16 ^ length ys"
    by (rule hex_number_bound) (use Cons.prems(1) in auto)
  then have by': "hex_number ys < 16 ^ length xs"
    by (simp add: Cons.hyps(1))
  have emb: "the (digit_value u) < the (digit_value v) \<longleftrightarrow> u < v"
    if "u \<in> {x, y}" "v \<in> {x, y}" for u v
    using that Cons.prems(2) [of u v] by auto
  show ?case
  proof (cases "x < y")
    case True
    then show ?thesis by simp
  next
    case False
    then have ge: "the (digit_value y) \<le> the (digit_value x)"
      using emb [of x y] by auto
    have "\<not> the (digit_value y) < the (digit_value x)"
    proof
      assume "the (digit_value y) < the (digit_value x)"
      then have "Suc (the (digit_value y)) * 16 ^ length xs \<le> the (digit_value x) * 16 ^ length xs"
        by (simp del: mult_Suc)
      with by' Cons.prems(3) Cons.hyps(1) show False
        by (simp add: hex_number_Cons)
    qed
    with ge have eq: "the (digit_value x) = the (digit_value y)" by simp
    then have "\<not> y < x" using emb [of y x] by auto
    with False have xy: "x = y" by simp
    from eq Cons.prems(3) Cons.hyps(1) have "hex_number xs < hex_number ys"
      by (simp add: hex_number_Cons)
    moreover have "\<forall>c \<in> set xs \<union> set ys. is_hex_digit c" using Cons.prems(1) by auto
    moreover have "\<And>u v. u \<in> set xs \<union> set ys \<Longrightarrow> v \<in> set xs \<union> set ys \<Longrightarrow>
           (the (digit_value u) < the (digit_value v) \<longleftrightarrow> u < v)"
      using Cons.prems(2) by auto
    ultimately have "string_less xs ys" by (rule Cons.IH [rotated 2])
    with xy show ?thesis by simp
  qed
qed

lemma string_less_append:
  "length xs = length ys \<Longrightarrow>
     string_less (xs @ u) (ys @ v) \<longleftrightarrow> string_less xs ys \<or> (xs = ys \<and> string_less u v)"
  by (induction xs ys rule: list_induct2) auto

lemma valid_split:
  assumes "length s = 36"
  shows "s = slice s 0 8 @ s ! 8 # slice s 9 13 @ drop 13 s"
    and "length (slice s 0 8) = 8" and "length (slice s 9 13) = 4"
proof -
  from assms obtain c0 c1 c2 c3 c4 c5 c6 c7 c8 c9 c10 c11 c12 c13 c14 c15 c16 c17 c18 c19 c20 c21 c22 c23 c24 c25 c26 c27 c28 c29 c30 c31 c32 c33 c34 c35
    where s: "s = [c0, c1, c2, c3, c4, c5, c6, c7, c8, c9, c10, c11, c12, c13, c14, c15, c16, c17, c18, c19, c20, c21, c22, c23, c24, c25, c26, c27, c28, c29, c30, c31, c32, c33, c34, c35]"
    by (rule length_36_explicit)
  show "s = slice s 0 8 @ s ! 8 # slice s 9 13 @ drop 13 s"
    and "length (slice s 0 8) = 8" and "length (slice s 9 13) = 4"
    unfolding s by (simp_all add: slice_def)
qed

lemma string_less_from_timestampHex:
  assumes "uuid7_pattern a" "uuid7_pattern b"
    and "string_less (timestampHex a) (timestampHex b)"
  shows "string_less a b"
proof -
  have la: "length a = 36" and lb: "length b = 36" and h: "a ! 8 = b ! 8"
    using assms(1,2) by (simp_all add: uuid7_pattern_def)
  note sa = valid_split [OF la] and sb = valid_split [OF lb]
  have l1: "length (slice a 0 8) = length (slice b 0 8)" using sa(2) sb(2) by simp
  have l2: "length (slice a 9 13) = length (slice b 9 13)" using sa(3) sb(3) by simp
  from assms(3) have
    "string_less (slice a 0 8) (slice b 0 8)
      \<or> (slice a 0 8 = slice b 0 8 \<and> string_less (slice a 9 13) (slice b 9 13))"
    by (simp add: timestampHex_def string_less_append [OF l1])
  then have "string_less (slice a 0 8 @ a ! 8 # slice a 9 13 @ drop 13 a)
                         (slice b 0 8 @ b ! 8 # slice b 9 13 @ drop 13 b)"
    by (auto simp: string_less_append [OF l1] string_less_append [OF l2] h)
  then show ?thesis using sa(1) sb(1) by simp
qed

text \<open>
  Where the timestamp digits of two accepted identifiers are written in one letter case
  (all lower case, as the generator writes them, or all upper case), the order of
  \<^verbatim>\<open>compare\<close> is the order of the timestamps; and \<^verbatim>\<open>compare(c, c)\<close> is \<open>0\<close> for every
  string \<open>c\<close>.
\<close>

lemma compare_one_letter_case:
  "(isValid uc a \<and> isValid uc b \<and> one_letter_case a b
      \<and> getTimestamp a = Date ta \<and> getTimestamp b = Date tb \<and> ta < tb
      \<longrightarrow> compare a b = - 1 \<and> compare b a = 1)
   \<and> compare c c = 0"
proof (intro conjI impI)
  show "compare c c = 0" by (simp add: compare_def string_less_irrefl)
next
  assume asm: "isValid uc a \<and> isValid uc b \<and> one_letter_case a b
      \<and> getTimestamp a = Date ta \<and> getTimestamp b = Date tb \<and> ta < tb"
  then have pa: "uuid7_pattern a" and pb: "uuid7_pattern b"
    by (simp_all add: isValid_iff)
  from asm have lt: "hex_number (timestampHex a) < hex_number (timestampHex b)"
    by (simp add: getTimestamp_valid(1) [OF pa] getTimestamp_valid(1) [OF pb])
  have len: "length (timestampHex a) = length (timestampHex b)"
    by (simp add: timestampHex_valid(1) [OF pa] timestampHex_valid(1) [OF pb])
  have hex: "\<forall>c \<in> set (timestampHex a) \<union> set (timestampHex b). is_hex_digit c"
    using timestampHex_valid(2) [OF pa] timestampHex_valid(2) [OF pb] by auto
  have emb: "the (digit_value x) < the (digit_value y) \<longleftrightarrow> x < y"
    if mx: "x \<in> set (timestampHex a) \<union> set (timestampHex b)"
      and my: "y \<in> set (timestampHex a) \<union> set (timestampHex b)" for x y
  proof -
    from asm have "one_letter_case a b" by simp
    then have "(lower_hex_digit x \<and> lower_hex_digit y) \<or> (upper_hex_digit x \<and> upper_hex_digit y)"
      using mx my unfolding one_letter_case_def by auto
    then consider "lower_hex_digit x \<and> lower_hex_digit y" | "upper_hex_digit x \<and> upper_hex_digit y"
      by blast
    then show ?thesis
      by cases (simp_all add: digit_value_mono_lower digit_value_mono_upper)
  qed
  have "string_less (timestampHex a) (timestampHex b)"
    by (rule hex_number_less_string_less [OF len hex emb lt])
  then have ab: "string_less a b" by (rule string_less_from_timestampHex [OF pa pb])
  then show "compare a b = - 1" by (simp add: compare_def)
  from ab string_less_asym [OF ab] show "compare b a = 1" by (simp add: compare_def)
qed

lemma compare_one_letter_case_example:
  "isValid plain_case (lit ''0000000a-0000-7000-8000-000000000000'')
   \<and> isValid plain_case (lit ''0000000b-0000-7000-8000-000000000000'')
   \<and> one_letter_case (lit ''0000000a-0000-7000-8000-000000000000'') (lit ''0000000b-0000-7000-8000-000000000000'')
   \<and> getTimestamp (lit ''0000000a-0000-7000-8000-000000000000'') = Date 655360
   \<and> getTimestamp (lit ''0000000b-0000-7000-8000-000000000000'') = Date 720896
   \<and> compare (lit ''0000000a-0000-7000-8000-000000000000'') (lit ''0000000b-0000-7000-8000-000000000000'') = - 1
   \<and> compare (lit ''0000000b-0000-7000-8000-000000000000'') (lit ''0000000a-0000-7000-8000-000000000000'') = 1"
proof -
  have va: "isValid plain_case (lit ''0000000a-0000-7000-8000-000000000000'')"
    by code_simp
  have vb: "isValid plain_case (lit ''0000000b-0000-7000-8000-000000000000'')"
    by code_simp
  have ta: "timestampHex (lit ''0000000a-0000-7000-8000-000000000000'') = lit ''0000000a0000''"
    and tb: "timestampHex (lit ''0000000b-0000-7000-8000-000000000000'') = lit ''0000000b0000''"
    by (simp_all add: timestampHex_def slice_def lit_def)
  have na: "hex_number (lit ''0000000a0000'') = 655360"
    and nb: "hex_number (lit ''0000000b0000'') = 720896"
    by (simp_all add: horner_hex_number [symmetric] lit_def digit_value_def cu_def)
  have ga: "getTimestamp (lit ''0000000a-0000-7000-8000-000000000000'') = Date 655360"
    using va by (simp add: isValid_iff getTimestamp_valid(1) ta na)
  have gb: "getTimestamp (lit ''0000000b-0000-7000-8000-000000000000'') = Date 720896"
    using vb by (simp add: isValid_iff getTimestamp_valid(1) tb nb)
  have o: "one_letter_case (lit ''0000000a-0000-7000-8000-000000000000'') (lit ''0000000b-0000-7000-8000-000000000000'')"
    unfolding one_letter_case_def ta tb by (simp add: lower_hex_digit_def lit_def)
  show ?thesis
    using va vb o ga gb
      compare_one_letter_case [of plain_case "lit ''0000000a-0000-7000-8000-000000000000''"
                                   "lit ''0000000b-0000-7000-8000-000000000000''" 655360 720896 "[]"]
    by simp
qed

text \<open>
  C2. The property: for any two identifiers that \<^verbatim>\<open>isValid\<close> accepts, if the timestamp
  of \<open>a\<close> is strictly smaller than the timestamp of \<open>b\<close>, then \<^verbatim>\<open>compare(a, b)\<close> is
  \<open>-1\<close> and \<^verbatim>\<open>compare(b, a)\<close> is \<open>1\<close>, as the documentation of \<^verbatim>\<open>compare\<close> says
  ("chronological ordering", "by their creation time"). The code does not have it:
  validation accepts both letter cases, \<^verbatim>\<open>compare\<close> compares code units, and nothing
  in between brings the letters to one case. The two identifiers below are accepted,
  the first has the smaller timestamp, and \<^verbatim>\<open>compare\<close> puts it after the second,
  because \<^verbatim>\<open>a\<close> (0x61) sorts after \<^verbatim>\<open>B\<close> (0x42).
\<close>

theorem C2_mixed_case_failure:
  "isValid plain_case (lit ''0000000a-0000-7000-8000-000000000000'')
   \<and> isValid plain_case (lit ''0000000B-0000-7000-8000-000000000000'')
   \<and> getTimestamp (lit ''0000000a-0000-7000-8000-000000000000'') = Date 655360
   \<and> getTimestamp (lit ''0000000B-0000-7000-8000-000000000000'') = Date 720896
   \<and> compare (lit ''0000000a-0000-7000-8000-000000000000'') (lit ''0000000B-0000-7000-8000-000000000000'') = 1
   \<and> compare (lit ''0000000B-0000-7000-8000-000000000000'') (lit ''0000000a-0000-7000-8000-000000000000'') = - 1"
proof -
  have va: "isValid plain_case (lit ''0000000a-0000-7000-8000-000000000000'')"
    by code_simp
  have vb: "isValid plain_case (lit ''0000000B-0000-7000-8000-000000000000'')"
    by code_simp
  have ta: "timestampHex (lit ''0000000a-0000-7000-8000-000000000000'') = lit ''0000000a0000''"
    and tb: "timestampHex (lit ''0000000B-0000-7000-8000-000000000000'') = lit ''0000000B0000''"
    by (simp_all add: timestampHex_def slice_def lit_def)
  have na: "hex_number (lit ''0000000a0000'') = 655360"
    and nb: "hex_number (lit ''0000000B0000'') = 720896"
    by (simp_all add: horner_hex_number [symmetric] lit_def digit_value_def cu_def)
  have ga: "getTimestamp (lit ''0000000a-0000-7000-8000-000000000000'') = Date 655360"
    using va by (simp add: isValid_iff getTimestamp_valid(1) ta na)
  have gb: "getTimestamp (lit ''0000000B-0000-7000-8000-000000000000'') = Date 720896"
    using vb by (simp add: isValid_iff getTimestamp_valid(1) tb nb)
  have c: "compare (lit ''0000000a-0000-7000-8000-000000000000'') (lit ''0000000B-0000-7000-8000-000000000000'') = 1"
    "compare (lit ''0000000B-0000-7000-8000-000000000000'') (lit ''0000000a-0000-7000-8000-000000000000'') = - 1"
    by (simp_all add: compare_def lit_def cu_def)
  from va vb ga gb c show ?thesis by simp
qed

section \<open>Batch generation\<close>

lemma from_loop_create_Inr:
  "fst (from_loop (create uc gen) n g) = Inr ids \<longleftrightarrow>
     outputs gen n g = map Some ids \<and> (\<forall>v \<in> set ids. isValid uc v)"
proof (induction n arbitrary: g ids)
  case 0
  show ?case by auto
next
  case (Suc n)
  show ?case
  proof (cases "fst (gen g)")
    case None
    then have c: "create uc gen g = (Inl (Error (lit ''Invalid UUIDv7 format: '')), snd (gen g))"
      by (simp add: create_eq)
    show ?thesis using None by (cases ids) (simp_all add: c)
  next
    case (Some v)
    show ?thesis
    proof (cases "isValid uc v")
      case False
      with Some have c: "create uc gen g = (Inl (Error (lit ''Invalid UUIDv7 format: '' @ v)), snd (gen g))"
        by (simp add: create_eq)
      show ?thesis using Some False by (cases ids) (auto simp: c)
    next
      case True
      with Some have c: "create uc gen g = (Inr v, snd (gen g))"
        by (simp add: create_eq)
      obtain r g' where r: "from_loop (create uc gen) n (snd (gen g)) = (r, g')"
        by (cases "from_loop (create uc gen) n (snd (gen g))")
      have ih: "r = Inr xs \<longleftrightarrow> outputs gen n (snd (gen g)) = map Some xs \<and> (\<forall>v \<in> set xs. isValid uc v)" for xs
        using Suc [of "snd (gen g)" xs] r by simp
      show ?thesis
      proof (cases r)
        case (Inl e)
        with Some True ih show ?thesis by (cases ids) (auto simp: c r)
      next
        case (Inr xs)
        with Some True ih [of xs] show ?thesis by (cases ids) (auto simp: c r)
      qed
    qed
  qed
qed

lemma length_outputs: "length (outputs gen n g) = n"
  by (induction n arbitrary: g) auto

lemma from_loop_create_Inl:
  "fst (from_loop (create uc gen) n g) = Inl e \<Longrightarrow> \<exists>v. e = Error (lit ''Invalid UUIDv7 format: '' @ v)"
proof (induction n arbitrary: g)
  case 0
  then show ?case by simp
next
  case (Suc n)
  obtain r g' where c: "create uc gen g = (r, g')" by (cases "create uc gen g")
  show ?case
  proof (cases r)
    case (Inl e')
    with Suc.prems c have "e = e'" by simp
    with Inl c show ?thesis by (auto simp: create_eq split: option.splits if_splits)
  next
    case (Inr v)
    with Suc.prems c have "fst (from_loop (create uc gen) n g') = Inl e"
      by (simp split: prod.splits sum.splits)
    then show ?thesis by (rule Suc.IH)
  qed
qed

lemma messages_differ:
  "lit ''Count must be a non-negative integer: '' @ x \<noteq> lit ''Invalid UUIDv7 format: '' @ y"
  by (simp add: lit_def cu_def)

lemma createMany_guard:
  "fst (createMany uc ToString gen g count)
     = Inl (Error (lit ''Count must be a non-negative integer: '' @ ToString count))
   \<longleftrightarrow> less_zero count \<or> \<not> isInteger count"
proof (cases "less_zero count \<or> \<not> isInteger count")
  case True
  then show ?thesis by (simp add: createMany_def)
next
  case False
  have "fst (Array_from count (create uc gen) g)
          \<noteq> Inl (Error (lit ''Count must be a non-negative integer: '' @ ToString count))"
  proof
    assume a: "fst (Array_from count (create uc gen) g)
          = Inl (Error (lit ''Count must be a non-negative integer: '' @ ToString count))"
    then have "fst (from_loop (create uc gen) (ToLength count) g)
          = Inl (Error (lit ''Count must be a non-negative integer: '' @ ToString count))"
      by (simp add: Array_from_def split: if_splits)
    from from_loop_create_Inl [OF this] show False
      by (auto simp: messages_differ)
  qed
  with False show ?thesis by (simp add: createMany_def)
qed

lemma createMany_nat:
  "fst (createMany uc ToString gen g (Finite (of_nat n))) = Inr ids \<longleftrightarrow>
     n < 2 ^ 32 \<and> outputs gen n g = map Some ids \<and> (\<forall>v \<in> set ids. isValid uc v)"
proof (cases "n < 2 ^ 32")
  case True
  then have "ToLength (Finite (of_nat n)) = n" by simp
  then have "createMany uc ToString gen g (Finite (of_nat n)) = from_loop (create uc gen) n g"
    using True by (simp add: createMany_def Array_from_def)
  with True show ?thesis by (simp add: from_loop_create_Inr)
next
  case False
  then have "ToLength (Finite (of_nat n)) > 2 ^ 32 - 1" by simp
  then have "createMany uc ToString gen g (Finite (of_nat n)) = (Inl RangeError, g)"
    by (simp add: createMany_def Array_from_def)
  with False show ?thesis by simp
qed

text \<open>
  C6 does not hold for every integer count that is not negative: when a call of
  \<^verbatim>\<open>create()\<close> fails, \<^verbatim>\<open>createMany\<close> fails with that error and returns no sequence
  (count 1, aborting generator); and a count of \<open>2^32\<close> or more is beyond the longest
  array of the platform, so that \<^verbatim>\<open>Array.from\<close> raises \<^verbatim>\<open>RangeError\<close> before any
  identifier is generated (count \<open>4294967296\<close>, well-behaved generator).
\<close>

theorem C6_createMany_counterexample:
  "\<not> less_zero (Finite 1) \<and> isInteger (Finite 1)
   \<and> fst (createMany plain_case example_ToString aborting_generator 0 (Finite 1))
       = Inl (Error (lit ''Invalid UUIDv7 format: ''))
   \<and> \<not> less_zero (Finite 4294967296) \<and> isInteger (Finite 4294967296)
   \<and> fst (createMany plain_case example_ToString constant_generator 0 (Finite 4294967296))
       = Inl RangeError"
  by (simp add: createMany_def Array_from_def create_eq aborting_generator_def)

text \<open>
  C6, amended. \<^verbatim>\<open>createMany(count)\<close> fails with the error whose message is
  \<^verbatim>\<open>Count must be a non-negative integer: \<close> followed by the count exactly when the
  count is negative or not an integer. For an integer count \<open>n\<close> that is not negative,
  it returns a sequence exactly when \<open>n\<close> is below \<open>2^32\<close> and the next \<open>n\<close> values of
  the generator are all accepted by \<^verbatim>\<open>isValid\<close>; the sequence then consists of these
  \<open>n\<close> values in the order of generation. \<^verbatim>\<open>createMany(0)\<close> returns the empty
  sequence.
\<close>

theorem C6_createMany:
  "(fst (createMany uc ToString gen g count)
      = Inl (Error (lit ''Count must be a non-negative integer: '' @ ToString count))
    \<longleftrightarrow> less_zero count \<or> \<not> isInteger count)
   \<and> (fst (createMany uc ToString gen g (Finite (of_nat n))) = Inr ids \<longleftrightarrow>
        n < 2 ^ 32 \<and> outputs gen n g = map Some ids \<and> (\<forall>v \<in> set ids. isValid uc v))
   \<and> (fst (createMany uc ToString gen g (Finite (of_nat n))) = Inr ids \<longrightarrow> length ids = n)
   \<and> fst (createMany uc ToString gen g (Finite 0)) = Inr []"
proof (intro conjI impI)
  show "fst (createMany uc ToString gen g (Finite 0)) = Inr []"
    using createMany_nat [of uc ToString gen g 0 "[]"] by simp
next
  assume "fst (createMany uc ToString gen g (Finite (of_nat n))) = Inr ids"
  then have "outputs gen n g = map Some ids" by (simp add: createMany_nat)
  then have "length (outputs gen n g) = length ids" by simp
  then show "length ids = n" by (simp add: length_outputs)
qed (rule createMany_guard, rule createMany_nat)

theorem C6_createMany_witness:
  "fst (createMany plain_case example_ToString constant_generator 0 (Finite (- 1)))
     = Inl (Error (lit ''Count must be a non-negative integer: -1''))
   \<and> fst (createMany plain_case example_ToString constant_generator 0 (Finite (3 / 2)))
     = Inl (Error (lit ''Count must be a non-negative integer: 1.5''))
   \<and> fst (createMany plain_case example_ToString constant_generator 0 (Finite 2))
     = Inr [lit ''01923f4a-7b3d-7123-8456-426614174000'', lit ''01923f4a-7b3d-7123-8456-426614174000'']
   \<and> isValid plain_case (lit ''01923f4a-7b3d-7123-8456-426614174000'')
   \<and> fst (createMany plain_case example_ToString constant_generator 0 (Finite 0)) = Inr []"
proof -
  have v: "isValid plain_case (lit ''01923f4a-7b3d-7123-8456-426614174000'')"
    by code_simp
  have o: "outputs constant_generator 2 0 = map Some [lit ''01923f4a-7b3d-7123-8456-426614174000'', lit ''01923f4a-7b3d-7123-8456-426614174000'']"
    by (simp add: numeral_2_eq_2 constant_generator_def)
  have f: "\<lfloor>3 / 2 :: rat\<rfloor> = 1"
    by (rule floor_unique) simp_all
  have 1: "fst (createMany plain_case example_ToString constant_generator 0 (Finite (- 1)))
     = Inl (Error (lit ''Count must be a non-negative integer: -1''))"
    using C6_createMany [of plain_case example_ToString constant_generator 0 "Finite (- 1)" 0 "[]"]
    by (simp add: lit_def)
  have 2: "fst (createMany plain_case example_ToString constant_generator 0 (Finite (3 / 2)))
     = Inl (Error (lit ''Count must be a non-negative integer: 1.5''))"
    using C6_createMany [of plain_case example_ToString constant_generator 0 "Finite (3 / 2)" 0 "[]"]
    by (simp add: lit_def f)
  have 3: "fst (createMany plain_case example_ToString constant_generator 0 (Finite 2))
     = Inr [lit ''01923f4a-7b3d-7123-8456-426614174000'', lit ''01923f4a-7b3d-7123-8456-426614174000'']"
    using v o
      C6_createMany [of plain_case example_ToString constant_generator 0 "Finite 0" 2
                        "[lit ''01923f4a-7b3d-7123-8456-426614174000'', lit ''01923f4a-7b3d-7123-8456-426614174000'']"]
    by simp
  have 4: "fst (createMany plain_case example_ToString constant_generator 0 (Finite 0)) = Inr []"
    using C6_createMany [of plain_case example_ToString constant_generator 0 "Finite 0" 0 "[]"]
    by simp
  from 1 2 3 v 4 show ?thesis by simp
qed

end
